theory Spec2Isabelle
  imports Complex_Main
begin

section \<open>Data model\<close>

text \<open>
  The TypeScript sources compute on \<open>number\<close>. Every \<open>number\<close> that carries a
  measurement, a weight, a threshold, a gain or a setpoint is modelled as a \<^typ>\<open>real\<close>:
  the arithmetic below is exact, there is no rounding, no \<open>NaN\<close> and no infinity. A
  nullable channel (\<open>number | null\<close>) is an \<^typ>\<open>real option\<close>. Array indices and
  sample counts are integers: \<^typ>\<open>int\<close> where the source can make them negative
  (\<open>w - 1\<close>, \<open>processed.length - 1\<close>), \<^typ>\<open>nat\<close> for a loop counter that starts at 0.
\<close>

datatype SeverityLabel = STABLE | MILD | MODERATE | SEVERE

datatype ControllerState = NORMAL | DETECTING | MITIGATING | RECOVERING

text \<open>\<open>types.ts\<close>: one row of \<open>telemetry.json\<close>.\<close>

record TelemetryRow =
  elapsed_s :: real
  bit_depth_m :: "real option"
  rpm :: "real option"
  torque_kNm :: "real option"
  wob_kkgf :: "real option"
  rop_mh :: "real option"
  rpm_ssi :: "real option"
  torque_deviation :: "real option"
  torque_spike :: "bool option"
  mwd_ss_pktopk :: "real option"
  mwd_ssi :: "real option"
  css :: "real option"
  severity_label :: "SeverityLabel option"
  stick_slip_flag :: "bool option"
  event_id :: "nat option"
  state :: "ControllerState option"
  wob_setpoint :: "real option"
  rpm_setpoint :: "real option"
  sim_rpm :: "real option"
  sim_torque :: "real option"
  sim_rop :: "real option"

text \<open>\<open>clientDetection.ts\<close>: \<open>interface ProcessedRow extends TelemetryRow\<close>.\<close>

record ProcessedRow = TelemetryRow +
  computed_css :: real
  computed_flag :: bool
  computed_event_id :: nat

text \<open>
  \<open>minDurationSamples\<close> is a count of samples (the tuning slider moves it in steps of 1),
  so it is an integer here; the source does not check its sign. The integer stands for
  a double of that value, which is exact between \<open>-2^53\<close> and \<open>2^53\<close>.
\<close>

record DetectionParams =
  mwdWeight :: real
  torqueWeight :: real
  rpmWeight :: real
  cssThreshold :: real
  minDurationSamples :: int

definition DEFAULT_PARAMS :: DetectionParams where
  "DEFAULT_PARAMS = \<lparr>mwdWeight = 0.60, torqueWeight = 0.30, rpmWeight = 0.10,
     cssThreshold = 0.25, minDurationSamples = 4\<rparr>"

text \<open>\<open>clientController.ts\<close>. \<open>holdoffSamples\<close> is a count of samples as well.\<close>

record ControllerParams =
  ssiEngage :: real
  ssiRecovery :: real
  holdoffSamples :: int
  kpWob :: real
  wobMinFraction :: real
  kpRpm :: real
  rpmMaxIncrease :: real

definition DEFAULT_CONTROLLER :: ControllerParams where
  "DEFAULT_CONTROLLER = \<lparr>ssiEngage = 0.25, ssiRecovery = 0.20, holdoffSamples = 5,
     kpWob = 0.30, wobMinFraction = 0.35, kpRpm = 0.15, rpmMaxIncrease = 25\<rparr>"

record ControllerOutput =
  state :: ControllerState
  wob_setpoint :: real
  rpm_setpoint :: real

section \<open>JavaScript reads\<close>

text \<open>\<open>x ?? d\<close>: the default replaces \<open>null\<close> and \<open>undefined\<close>.\<close>

definition nullish :: "'a option \<Rightarrow> 'a \<Rightarrow> 'a" where
  "nullish x d = (case x of None \<Rightarrow> d | Some v \<Rightarrow> v)"

text \<open>\<open>xs[i]\<close>: \<open>undefined\<close> (here \<open>None\<close>) outside \<open>0 \<dots> xs.length - 1\<close>.\<close>

definition js_index :: "'a list \<Rightarrow> int \<Rightarrow> 'a option" where
  "js_index xs i = (if 0 \<le> i \<and> i < int (length xs) then Some (xs ! nat i) else None)"

section \<open>\<open>clientDetection.ts\<close>: severity score and event detection\<close>

text \<open>
  Step 1 of \<open>recompute\<close>, for one row. The three weights are divided by their sum with
  no check of the sum. Where the sum is 0 the source divides by zero and every score is
  \<open>NaN\<close>; HOL's \<open>x / 0 = 0\<close> is not that, so the scores of this model mean what the
  source computes only for a sum other than 0.
\<close>

definition score_row :: "DetectionParams \<Rightarrow> TelemetryRow \<Rightarrow> ProcessedRow" where
  "score_row params r =
     (let total = mwdWeight params + torqueWeight params + rpmWeight params;
          wMwd = mwdWeight params / total;
          wTorque = torqueWeight params / total;
          wRpm = rpmWeight params / total;
          mwd = nullish (mwd_ssi r) 0 * wMwd;
          torque = max 0 (min 1 (nullish (torque_deviation r) 0 * 0.5)) * wTorque;
          rpm = max 0 (min 1 (nullish (rpm_ssi r) 0 * 0.5)) * wRpm;
          css = min 1 (mwd + torque + rpm)
      in TelemetryRow.extend r (ProcessedRow.fields css False 0))"

text \<open>
  Step 2. \<open>!rawFlag[j]\<close> is true for a false flag and for an index outside the array
  (\<open>!undefined\<close>), so the flag counts only when it is there and true.
\<close>

definition rawFlag_at :: "bool list \<Rightarrow> int \<Rightarrow> bool" where
  "rawFlag_at rawFlag j = (case js_index rawFlag j of None \<Rightarrow> False | Some b \<Rightarrow> b)"

text \<open>The inner loop \<open>for (let j = i - w + 1; j <= i; j++)\<close> with its \<open>break\<close>.\<close>

function allTrue_loop :: "bool list \<Rightarrow> int \<Rightarrow> int \<Rightarrow> bool" where
  "allTrue_loop rawFlag j i =
     (if j \<le> i
      then (if \<not> rawFlag_at rawFlag j then False else allTrue_loop rawFlag (j + 1) i)
      else True)"
  by pat_completeness auto
termination
  by (relation "measure (\<lambda>(rawFlag, j, i). nat (i + 1 - j))") auto

declare allTrue_loop.simps [simp del]

text \<open>
  \<open>sustained[i] = true\<close>. The loop below starts at \<open>i = w - 1\<close>, which is negative
  for \<open>w < 1\<close>: a write at a negative index adds a property to the array object and
  changes no element. The loop guard \<open>i < n\<close> keeps every write below the length, so
  the array never grows.
\<close>

definition js_store :: "'a list \<Rightarrow> int \<Rightarrow> 'a \<Rightarrow> 'a list" where
  "js_store xs i v = (if 0 \<le> i \<and> i < int (length xs) then xs[nat i := v] else xs)"

text \<open>
  The outer loop \<open>for (let i = w - 1; i < n; i++)\<close>. The counter of the source is a
  double. For every window \<open>w \<ge> 1\<close> it starts at \<open>w - 1 \<ge> 0\<close> and counts up to the
  array length in exact steps, which is what the function below does. For a window
  below 1 the counter starts below 0: the function below follows the source as long as
  \<open>i++\<close> is exact (the window 0 starts at \<open>-1\<close>), but far enough below \<open>-2^53\<close>,
  and at \<open>-Infinity\<close>, \<open>i++\<close> leaves the counter of the source where it is and the
  source never leaves the loop, which this terminating function does not show. So nothing
  that is said for all windows below 1 may rest on this function.
\<close>

function sustained_loop :: "bool list \<Rightarrow> int \<Rightarrow> int \<Rightarrow> int \<Rightarrow> bool list \<Rightarrow> bool list" where
  "sustained_loop rawFlag w n i sustained =
     (if i < n
      then sustained_loop rawFlag w n (i + 1)
             (if allTrue_loop rawFlag (i - w + 1) i then js_store sustained i True
              else sustained)
      else sustained)"
  by pat_completeness auto
termination
  by (relation "measure (\<lambda>(rawFlag, w, n, i, sustained). nat (n - i))") auto

declare sustained_loop.simps [simp del]

definition sustained_of :: "bool list \<Rightarrow> int \<Rightarrow> bool list" where
  "sustained_of rawFlag w =
     (let n = int (length rawFlag)
      in sustained_loop rawFlag w n (w - 1) (replicate (length rawFlag) False))"

text \<open>
  Step 3, the scan \<open>for (let i = 0; i < n; i++)\<close> over \<open>sustained\<close>, with the two
  variables \<open>eventId\<close> and \<open>inEvent\<close>; the result is the value written to
  \<open>computed_event_id\<close> at each index.
\<close>

fun assignEventIds :: "nat \<Rightarrow> bool \<Rightarrow> bool list \<Rightarrow> nat list" where
  "assignEventIds eventId inEvent [] = []"
| "assignEventIds eventId inEvent (s # rest) =
     (let eventId' = (if s \<and> \<not> inEvent then eventId + 1 else eventId);
          inEvent' = (if s \<and> \<not> inEvent then True else if \<not> s then False else inEvent)
      in (if s then eventId' else 0) # assignEventIds eventId' inEvent' rest)"

definition recompute :: "TelemetryRow list \<Rightarrow> DetectionParams \<Rightarrow> ProcessedRow list" where
  "recompute rows params =
     (let processed = map (score_row params) rows;
          rawFlag = map (\<lambda>r. computed_css r \<ge> cssThreshold params) processed;
          sustained = sustained_of rawFlag (minDurationSamples params);
          ids = assignEventIds 0 False sustained
      in map (\<lambda>(r, s, e). r\<lparr>computed_flag := s, computed_event_id := e\<rparr>)
           (zip processed (zip sustained ids)))"

section \<open>\<open>clientController.ts\<close>: the auto-driller state machine\<close>

text \<open>The variables that \<open>runController\<close> keeps across the samples of its loop.\<close>

record ControllerVars =
  ctl_state :: ControllerState
  detectionStartIdx :: nat
  recoveryStartIdx :: nat
  wobSp :: real
  rpmSp :: real

text \<open>The \<open>switch (state)\<close> of one iteration, at index \<open>i\<close>; \<open>cssv\<close> is the local \<open>css\<close>, the score of row \<open>i\<close>.\<close>

definition ctrl_step ::
  "ControllerParams \<Rightarrow> real \<Rightarrow> real \<Rightarrow> nat \<Rightarrow> real \<Rightarrow> ControllerVars \<Rightarrow> ControllerVars" where
  "ctrl_step params nominalWob nominalRpm i cssv v =
     (case ctl_state v of
        NORMAL \<Rightarrow>
          (let v1 = v\<lparr>wobSp := nominalWob, rpmSp := nominalRpm\<rparr>
           in if cssv \<ge> ssiEngage params
              then v1\<lparr>ctl_state := DETECTING, detectionStartIdx := i\<rparr>
              else v1)
      | DETECTING \<Rightarrow>
          (if cssv < ssiEngage params then v\<lparr>ctl_state := NORMAL\<rparr>
           else if int i - int (detectionStartIdx v) \<ge> holdoffSamples params
                then v\<lparr>ctl_state := MITIGATING\<rparr>
                else v)
      | MITIGATING \<Rightarrow>
          (let excess = max 0 (cssv - ssiEngage params);
               v1 = v\<lparr>wobSp := max (nominalWob * wobMinFraction params)
                                    (nominalWob - kpWob params * excess * nominalWob),
                       rpmSp := min (nominalRpm + rpmMaxIncrease params)
                                    (nominalRpm + kpRpm params * excess * 10)\<rparr>
           in if cssv < ssiRecovery params
              then v1\<lparr>ctl_state := RECOVERING, recoveryStartIdx := i\<rparr>
              else v1)
      | RECOVERING \<Rightarrow>
          (if cssv \<ge> ssiEngage params then v\<lparr>ctl_state := MITIGATING\<rparr>
           else if int i - int (recoveryStartIdx v) \<ge> 12
                then (let v1 = v\<lparr>wobSp := min nominalWob (wobSp v + 0.008 * nominalWob),
                                    rpmSp := max nominalRpm (rpmSp v - 0.5)\<rparr>
                      in if wobSp v1 \<ge> nominalWob * 0.98
                         then v1\<lparr>ctl_state := NORMAL, wobSp := nominalWob,
                                  rpmSp := nominalRpm\<rparr>
                         else v1)
                else v))"

definition output_of :: "ControllerVars \<Rightarrow> ControllerOutput" where
  "output_of v = \<lparr>state = ctl_state v, wob_setpoint = wobSp v, rpm_setpoint = rpmSp v\<rparr>"

text \<open>The loop \<open>for (let i = 0; i < rows.length; i++)\<close> with its \<open>outputs.push\<close>.\<close>

fun ctrl_loop ::
  "ControllerParams \<Rightarrow> real \<Rightarrow> real \<Rightarrow> nat \<Rightarrow> ControllerVars \<Rightarrow> ProcessedRow list
     \<Rightarrow> ControllerOutput list" where
  "ctrl_loop params nominalWob nominalRpm i v [] = []"
| "ctrl_loop params nominalWob nominalRpm i v (r # rows) =
     (let v' = ctrl_step params nominalWob nominalRpm i (computed_css r) v
      in output_of v' # ctrl_loop params nominalWob nominalRpm (Suc i) v' rows)"

definition runController ::
  "ProcessedRow list \<Rightarrow> ControllerParams \<Rightarrow> real \<Rightarrow> real \<Rightarrow> ControllerOutput list" where
  "runController rows params nominalWob nominalRpm =
     ctrl_loop params nominalWob nominalRpm 0
       \<lparr>ctl_state = NORMAL, detectionStartIdx = 0, recoveryStartIdx = 0,
        wobSp = nominalWob, rpmSp = nominalRpm\<rparr> rows"

text \<open>
  The variables of the loop after it has run over a list of rows, starting at index
  \<open>i\<close>: the state in which the next iteration begins.
\<close>

fun vars_after ::
  "ControllerParams \<Rightarrow> real \<Rightarrow> real \<Rightarrow> nat \<Rightarrow> ControllerVars \<Rightarrow> ProcessedRow list
     \<Rightarrow> ControllerVars" where
  "vars_after params nominalWob nominalRpm i v [] = v"
| "vars_after params nominalWob nominalRpm i v (r # rows) =
     vars_after params nominalWob nominalRpm (Suc i)
       (ctrl_step params nominalWob nominalRpm i (computed_css r) v) rows"

section \<open>\<open>SimulationEngine.tsx\<close>: playback\<close>

text \<open>
  The refs and the React state of the component that the animation loop and the
  transport controls write. \<open>scrubFillWidth\<close> is the width (in percent) written to
  \<open>scrubFillRef\<close>, \<open>chartCursorFraction\<close> the argument of \<open>setCursorFraction\<close>,
  \<open>scrubTime\<close> the seconds that \<open>scrubTimeRef\<close> shows; the three elements are taken
  to be mounted. A state setter is modelled as an immediate write.
\<close>

record PlaybackState =
  cursorIdxRef :: int
  cursorIdx :: int
  playing :: bool
  lastFrameRef :: real
  lastDisplayRef :: real
  smoothedCssRef :: real
  displayCss :: real
  scrubFillWidth :: real
  chartCursorFraction :: real
  scrubTime :: real

datatype js_error = TypeError

text \<open>\<open>SPEEDS[k].samples\<close>: data samples advanced per animation frame.\<close>

definition SPEEDS :: "int list" where
  "SPEEDS = [1, 5, 20, 100]"

text \<open>\<open>processed[i]?.computed_css ?? 0\<close> and \<open>processed[i]?.elapsed_s ?? 0\<close>.\<close>

definition css_at :: "ProcessedRow list \<Rightarrow> int \<Rightarrow> real" where
  "css_at processed i = nullish (map_option computed_css (js_index processed i)) 0"

definition elapsed_at :: "ProcessedRow list \<Rightarrow> int \<Rightarrow> real" where
  "elapsed_at processed i = nullish (map_option elapsed_s (js_index processed i)) 0"

definition cursor_fraction :: "ProcessedRow list \<Rightarrow> int \<Rightarrow> real" where
  "cursor_fraction processed newIdx =
     (if length processed > 1
      then real_of_int newIdx / real_of_int (int (length processed) - 1) else 0)"

text \<open>
  The throttled update of \<open>tick\<close> (the body of \<open>if (ts - lastDisplayRef.current >= 66)\<close>):
  the attack-release filter on \<open>smoothedCssRef\<close>, then the state setters.
\<close>

definition display_update :: "ProcessedRow list \<Rightarrow> int \<Rightarrow> real \<Rightarrow> PlaybackState \<Rightarrow> PlaybackState" where
  "display_update processed newIdx ts s =
     (let s1 = s\<lparr>lastDisplayRef := ts\<rparr>;
          raw = css_at processed newIdx;
          alpha = (if raw > smoothedCssRef s1 then 0.4 else 0.08);
          s2 = s1\<lparr>smoothedCssRef := alpha * raw + (1 - alpha) * smoothedCssRef s1\<rparr>;
          s3 = s2\<lparr>cursorIdx := newIdx, displayCss := smoothedCssRef s2\<rparr>;
          s4 = s3\<lparr>scrubTime := elapsed_at processed newIdx\<rparr>
      in if newIdx \<ge> int (length processed) - 1 then s4\<lparr>playing := False\<rparr> else s4)"

text \<open>
  One animation frame at time stamp \<open>ts\<close>. \<open>speedIdx\<close> and \<open>processed\<close> are the
  values the callback closes over. \<open>SPEEDS[speedIdx].samples\<close> throws for an index
  outside the table.
\<close>

definition tick :: "nat \<Rightarrow> ProcessedRow list \<Rightarrow> real \<Rightarrow> PlaybackState \<Rightarrow> js_error + PlaybackState" where
  "tick speedIdx processed ts s =
     (let s1 = (if lastFrameRef s = 0 then s\<lparr>lastFrameRef := ts\<rparr> else s);
          frameDelta = ts - lastFrameRef s1
      in if frameDelta \<ge> 16
         then (let s2 = s1\<lparr>lastFrameRef := ts\<rparr>
               in case js_index SPEEDS (int speedIdx) of
                    None \<Rightarrow> Inl TypeError
                  | Some samples \<Rightarrow>
                      (let newIdx = min (cursorIdxRef s2 + samples) (int (length processed) - 1);
                           s3 = s2\<lparr>cursorIdxRef := newIdx\<rparr>;
                           frac = cursor_fraction processed newIdx;
                           s4 = s3\<lparr>scrubFillWidth := frac * 100, chartCursorFraction := frac\<rparr>
                       in Inr (if ts - lastDisplayRef s4 \<ge> 66
                               then display_update processed newIdx ts s4 else s4)))
         else Inr s1)"

text \<open>\<open>moveCursor\<close>: the cursor moved by a transport control or by the scrubber.\<close>

definition moveCursor :: "ProcessedRow list \<Rightarrow> int \<Rightarrow> PlaybackState \<Rightarrow> PlaybackState" where
  "moveCursor processed newIdx s =
     (let s1 = s\<lparr>cursorIdxRef := newIdx\<rparr>;
          frac = cursor_fraction processed newIdx;
          s2 = s1\<lparr>scrubFillWidth := frac * 100, chartCursorFraction := frac\<rparr>;
          raw = css_at processed newIdx;
          s3 = s2\<lparr>smoothedCssRef := raw\<rparr>
      in s3\<lparr>displayCss := raw, cursorIdx := newIdx\<rparr>)"

text \<open>
  The values derived from the throttled \<open>cursorIdx\<close> at each render:
  \<open>row = processed[cursorIdx] ?? processed[0]\<close>, \<open>ctrl = ctrlOutputs[cursorIdx] ?? ctrlOutputs[0]\<close>
  and the smoothed score shown by the gauge.
\<close>

definition or_first :: "'a list \<Rightarrow> int \<Rightarrow> 'a option" where
  "or_first xs i = (case js_index xs i of None \<Rightarrow> js_index xs 0 | Some x \<Rightarrow> Some x)"

definition derived_values ::
  "ProcessedRow list \<Rightarrow> ControllerOutput list \<Rightarrow> PlaybackState
     \<Rightarrow> ProcessedRow option \<times> ControllerOutput option \<times> real" where
  "derived_values processed ctrlOutputs s =
     (or_first processed (cursorIdx s), or_first ctrlOutputs (cursorIdx s), displayCss s)"

section \<open>Sample data\<close>

text \<open>A row with every channel absent, and a processed row with a given score.\<close>

definition blank_row :: TelemetryRow where
  "blank_row = \<lparr>elapsed_s = 0, bit_depth_m = None, rpm = None, torque_kNm = None,
     wob_kkgf = None, rop_mh = None, rpm_ssi = None, torque_deviation = None,
     torque_spike = None, mwd_ss_pktopk = None, mwd_ssi = None, css = None,
     severity_label = None, stick_slip_flag = None, event_id = None,
     TelemetryRow.state = None, TelemetryRow.wob_setpoint = None,
     TelemetryRow.rpm_setpoint = None, sim_rpm = None, sim_torque = None, sim_rop = None\<rparr>"

definition scored :: "real \<Rightarrow> ProcessedRow" where
  "scored c = TelemetryRow.extend blank_row (ProcessedRow.fields c False 0)"

definition stopped :: PlaybackState where
  "stopped = \<lparr>cursorIdxRef = 0, cursorIdx = 0, playing = False, lastFrameRef = 0,
     lastDisplayRef = 0, smoothedCssRef = 0, displayCss = 0, scrubFillWidth = 0,
     chartCursorFraction = 0, scrubTime = 0\<rparr>"

section \<open>The controller pass, sample by sample\<close>

lemma length_ctrl_loop: "length (ctrl_loop p nW nR i v rows) = length rows"
  by (induction rows arbitrary: i v) (simp_all add: Let_def)

lemma ctrl_loop_nth:
  "k < length rows \<Longrightarrow>
   ctrl_loop p nW nR i v rows ! k = output_of (vars_after p nW nR i v (take (Suc k) rows))"
proof (induction rows arbitrary: i v k)
  case Nil
  then show ?case by simp
next
  case (Cons r rows)
  show ?case
  proof (cases k)
    case 0
    then show ?thesis by (simp add: Let_def)
  next
    case (Suc k')
    with Cons.prems have "k' < length rows" by simp
    from Cons.IH [OF this] Suc show ?thesis by (simp add: Let_def)
  qed
qed

lemma vars_after_snoc:
  "vars_after p nW nR i v (rows @ [r]) =
   ctrl_step p nW nR (i + length rows) (computed_css r) (vars_after p nW nR i v rows)"
  by (induction rows arbitrary: i v) simp_all

lemma vars_after_take_Suc:
  assumes "k < length rows"
  shows "vars_after p nW nR i v (take (Suc k) rows) =
         ctrl_step p nW nR (i + k) (computed_css (rows ! k)) (vars_after p nW nR i v (take k rows))"
proof -
  have "take (Suc k) rows = take k rows @ [rows ! k]"
    using assms by (simp add: take_Suc_conv_app_nth)
  then show ?thesis
    using assms by (simp add: vars_after_snoc)
qed

lemma state_output_of [simp]: "state (output_of v) = ctl_state v"
  and wob_output_of [simp]: "wob_setpoint (output_of v) = wobSp v"
  and rpm_output_of [simp]: "rpm_setpoint (output_of v) = rpmSp v"
  by (simp_all add: output_of_def)

lemma runController_nth:
  "k < length rows \<Longrightarrow>
   runController rows p nW nR ! k =
   output_of (vars_after p nW nR 0
     \<lparr>ctl_state = NORMAL, detectionStartIdx = 0, recoveryStartIdx = 0,
      wobSp = nW, rpmSp = nR\<rparr> (take (Suc k) rows))"
  by (simp add: runController_def ctrl_loop_nth)

lemma step_from_MITIGATING:
  "ctl_state v = MITIGATING \<Longrightarrow>
   ctl_state (ctrl_step p nW nR i c v) = (if c < ssiRecovery p then RECOVERING else MITIGATING)"
  by (simp add: ctrl_step_def Let_def)

lemma computed_css_scored [simp]: "computed_css (scored c) = c"
  by (simp add: scored_def TelemetryRow.defs ProcessedRow.defs blank_row_def)

lemma step_MITIGATING_setpoints:
  "ctl_state v = MITIGATING \<Longrightarrow>
   wobSp (ctrl_step p nW nR i c v) =
     max (nW * wobMinFraction p) (nW - kpWob p * max 0 (c - ssiEngage p) * nW) \<and>
   rpmSp (ctrl_step p nW nR i c v) =
     min (nR + rpmMaxIncrease p) (nR + kpRpm p * max 0 (c - ssiEngage p) * 10)"
  by (simp add: ctrl_step_def Let_def)

lemma step_from_DETECTING:
  "ctl_state v = DETECTING \<Longrightarrow>
   ctl_state (ctrl_step p nW nR i c v) =
     (if c < ssiEngage p then NORMAL
      else if int i - int (detectionStartIdx v) \<ge> holdoffSamples p then MITIGATING
      else DETECTING)"
  by (simp add: ctrl_step_def)

lemma step_from_NORMAL:
  "ctl_state v = NORMAL \<Longrightarrow>
   ctl_state (ctrl_step p nW nR i c v) = (if c \<ge> ssiEngage p then DETECTING else NORMAL) \<and>
   detectionStartIdx (ctrl_step p nW nR i c v) =
     (if c \<ge> ssiEngage p then i else detectionStartIdx v)"
  by (simp add: ctrl_step_def Let_def)

text \<open>
  Claim C5. The pass starts in NORMAL at index 0, so the first output is DETECTING when
  the first score reaches \<open>ssiEngage\<close> and NORMAL otherwise. An iteration that begins in
  DETECTING goes to NORMAL when the score is below \<open>ssiEngage\<close>; otherwise it goes to
  MITIGATING when \<open>i - detectionStartIdx >= holdoffSamples\<close>, and stays in DETECTING
  when not. With \<open>ssiEngage = 0.25\<close> and \<open>holdoffSamples = 2\<close>, rows with the scores
  0.1, 0.3, 0.3, 0.3 give the states NORMAL, DETECTING, DETECTING, MITIGATING, whatever
  the other parameters and the nominal setpoints are.
\<close>

theorem detecting_transitions:
  "state (runController (r # rows) p nW nR ! 0) =
     (if computed_css r \<ge> ssiEngage p then DETECTING else NORMAL) \<and>
   (ctl_state v = DETECTING \<longrightarrow>
      ctl_state (ctrl_step p nW nR i c v) =
        (if c < ssiEngage p then NORMAL
         else if int i - int (detectionStartIdx v) \<ge> holdoffSamples p then MITIGATING
         else DETECTING)) \<and>
   (ssiEngage q = 0.25 \<and> holdoffSamples q = 2 \<and> map computed_css rs = [0.1, 0.3, 0.3, 0.3] \<longrightarrow>
      map state (runController rs q nW' nR') = [NORMAL, DETECTING, DETECTING, MITIGATING])"
proof (intro conjI impI)
  show "state (runController (r # rows) p nW nR ! 0) =
     (if computed_css r \<ge> ssiEngage p then DETECTING else NORMAL)"
    by (simp add: runController_def Let_def step_from_NORMAL)
next
  assume "ctl_state v = DETECTING"
  then show "ctl_state (ctrl_step p nW nR i c v) =
        (if c < ssiEngage p then NORMAL
         else if int i - int (detectionStartIdx v) \<ge> holdoffSamples p then MITIGATING
         else DETECTING)"
    by (rule step_from_DETECTING)
next
  assume h: "ssiEngage q = 0.25 \<and> holdoffSamples q = 2 \<and> map computed_css rs = [0.1, 0.3, 0.3, 0.3]"
  then have q: "ssiEngage q = 0.25" "holdoffSamples q = 2" by blast+
  from h obtain r0 r1 r2 r3 where rs: "rs = [r0, r1, r2, r3]"
    and c: "computed_css r0 = 0.1" "computed_css r1 = 0.3" "computed_css r2 = 0.3"
      "computed_css r3 = 0.3"
    by auto
  let ?v0 = "\<lparr>ctl_state = NORMAL, detectionStartIdx = 0, recoveryStartIdx = 0,
      wobSp = nW', rpmSp = nR'\<rparr>"
  let ?v1 = "ctrl_step q nW' nR' 0 0.1 ?v0"
  let ?v2 = "ctrl_step q nW' nR' 1 0.3 ?v1"
  let ?v3 = "ctrl_step q nW' nR' 2 0.3 ?v2"
  let ?v4 = "ctrl_step q nW' nR' 3 0.3 ?v3"
  have s1: "ctl_state ?v1 = NORMAL"
    by (simp add: step_from_NORMAL q)
  have s2: "ctl_state ?v2 = DETECTING" "detectionStartIdx ?v2 = 1"
    using step_from_NORMAL [OF s1, of q nW' nR' 1 "0.3"] by (simp_all add: q)
  have s3: "ctl_state ?v3 = DETECTING" "detectionStartIdx ?v3 = 1"
    using s2 by (simp_all add: ctrl_step_def q)
  have s4: "ctl_state ?v4 = MITIGATING"
    using s3 by (simp add: step_from_DETECTING q)
  show "map state (runController rs q nW' nR') = [NORMAL, DETECTING, DETECTING, MITIGATING]"
    using s1 s2(1) s3(1) s4
    by (simp add: rs c runController_def Let_def eval_nat_numeral)
qed

theorem detecting_transitions_witness:
  "map state (runController [scored 0.1, scored 0.3, scored 0.3, scored 0.3]
     (DEFAULT_CONTROLLER\<lparr>holdoffSamples := 2\<rparr>) 100 120) =
     [NORMAL, DETECTING, DETECTING, MITIGATING] \<and>
   ctl_state (ctrl_step DEFAULT_CONTROLLER 100 120 9 0.1
     \<lparr>ctl_state = DETECTING, detectionStartIdx = 2, recoveryStartIdx = 0,
      wobSp = 100, rpmSp = 120\<rparr>) = NORMAL \<and>
   ctl_state (ctrl_step DEFAULT_CONTROLLER 100 120 7 0.3
     \<lparr>ctl_state = DETECTING, detectionStartIdx = 2, recoveryStartIdx = 0,
      wobSp = 100, rpmSp = 120\<rparr>) = MITIGATING \<and>
   ctl_state (ctrl_step DEFAULT_CONTROLLER 100 120 6 0.3
     \<lparr>ctl_state = DETECTING, detectionStartIdx = 2, recoveryStartIdx = 0,
      wobSp = 100, rpmSp = 120\<rparr>) = DETECTING"
  using
    detecting_transitions [of "scored 0.1" "[]" "DEFAULT_CONTROLLER" 100 120
      "\<lparr>ctl_state = DETECTING, detectionStartIdx = 2, recoveryStartIdx = 0,
        wobSp = 100, rpmSp = 120\<rparr>" 9 "0.1"
      "DEFAULT_CONTROLLER\<lparr>holdoffSamples := 2\<rparr>"
      "[scored 0.1, scored 0.3, scored 0.3, scored 0.3]" 100 120]
    detecting_transitions [of "scored 0.1" "[]" "DEFAULT_CONTROLLER" 100 120
      "\<lparr>ctl_state = DETECTING, detectionStartIdx = 2, recoveryStartIdx = 0,
        wobSp = 100, rpmSp = 120\<rparr>" 7 "0.3"
      "DEFAULT_CONTROLLER\<lparr>holdoffSamples := 2\<rparr>"
      "[scored 0.1, scored 0.3, scored 0.3, scored 0.3]" 100 120]
    detecting_transitions [of "scored 0.1" "[]" "DEFAULT_CONTROLLER" 100 120
      "\<lparr>ctl_state = DETECTING, detectionStartIdx = 2, recoveryStartIdx = 0,
        wobSp = 100, rpmSp = 120\<rparr>" 6 "0.3"
      "DEFAULT_CONTROLLER\<lparr>holdoffSamples := 2\<rparr>"
      "[scored 0.1, scored 0.3, scored 0.3, scored 0.3]" 100 120]
  by (simp add: DEFAULT_CONTROLLER_def)

text \<open>
  Claim C6. An iteration that begins in MITIGATING (the output before it reports
  MITIGATING) sets \<open>wob_setpoint\<close> to
  \<open>max (nominalWob * wobMinFraction) (nominalWob - kpWob * excess * nominalWob)\<close> and
  \<open>rpm_setpoint\<close> to \<open>min (nominalRpm + rpmMaxIncrease) (nominalRpm + kpRpm * excess * 10)\<close>,
  with \<open>excess = max 0 (css - ssiEngage)\<close>. With a nominal of 100, \<open>kpWob = 0.3\<close>,
  \<open>wobMinFraction = 0.35\<close>, \<open>ssiEngage = 0.25\<close> and a score of 0.55 the first setpoint
  is 91.
\<close>

theorem mitigating_setpoints:
  "(Suc i < length rows \<and> state (runController rows p nW nR ! i) = MITIGATING \<longrightarrow>
      wob_setpoint (runController rows p nW nR ! Suc i) =
        max (nW * wobMinFraction p)
            (nW - kpWob p * max 0 (computed_css (rows ! Suc i) - ssiEngage p) * nW) \<and>
      rpm_setpoint (runController rows p nW nR ! Suc i) =
        min (nR + rpmMaxIncrease p)
            (nR + kpRpm p * max 0 (computed_css (rows ! Suc i) - ssiEngage p) * 10)) \<and>
   (ctl_state v = MITIGATING \<and> ssiEngage q = 0.25 \<and> kpWob q = 0.3 \<and> wobMinFraction q = 0.35 \<longrightarrow>
      wobSp (ctrl_step q 100 nR' k 0.55 v) = 91)"
proof (intro conjI impI)
  assume a: "Suc i < length rows \<and> state (runController rows p nW nR ! i) = MITIGATING"
  let ?v0 = "\<lparr>ctl_state = NORMAL, detectionStartIdx = 0, recoveryStartIdx = 0,
      wobSp = nW, rpmSp = nR\<rparr>"
  let ?v = "vars_after p nW nR 0 ?v0 (take (Suc i) rows)"
  from a have l: "Suc i < length rows" and "i < length rows" by simp_all
  with a have m: "ctl_state ?v = MITIGATING"
    by (simp add: runController_nth)
  have e: "runController rows p nW nR ! Suc i =
        output_of (ctrl_step p nW nR (Suc i) (computed_css (rows ! Suc i)) ?v)"
    using l by (simp only: runController_nth vars_after_take_Suc [OF l]) simp
  from step_MITIGATING_setpoints [OF m] e
  show "wob_setpoint (runController rows p nW nR ! Suc i) =
        max (nW * wobMinFraction p)
            (nW - kpWob p * max 0 (computed_css (rows ! Suc i) - ssiEngage p) * nW)"
    by simp
  from step_MITIGATING_setpoints [OF m] e
  show "rpm_setpoint (runController rows p nW nR ! Suc i) =
        min (nR + rpmMaxIncrease p)
            (nR + kpRpm p * max 0 (computed_css (rows ! Suc i) - ssiEngage p) * 10)"
    by simp
next
  assume h: "ctl_state v = MITIGATING \<and> ssiEngage q = 0.25 \<and> kpWob q = 0.3 \<and> wobMinFraction q = 0.35"
  then have m: "ctl_state v = MITIGATING" by blast
  from h have q: "ssiEngage q = 0.25" "kpWob q = 0.3" "wobMinFraction q = 0.35" by blast+
  show "wobSp (ctrl_step q 100 nR' k 0.55 v) = 91"
    unfolding conjunct1 [OF step_MITIGATING_setpoints [OF m]] q by simp
qed

theorem mitigating_setpoints_witness:
  "state (runController [scored 0.3, scored 0.3, scored 0.55]
      (DEFAULT_CONTROLLER\<lparr>holdoffSamples := 1\<rparr>) 100 120 ! 1) = MITIGATING \<and>
   wob_setpoint (runController [scored 0.3, scored 0.3, scored 0.55]
      (DEFAULT_CONTROLLER\<lparr>holdoffSamples := 1\<rparr>) 100 120 ! Suc 1) = 91 \<and>
   rpm_setpoint (runController [scored 0.3, scored 0.3, scored 0.55]
      (DEFAULT_CONTROLLER\<lparr>holdoffSamples := 1\<rparr>) 100 120 ! Suc 1) = 120.45 \<and>
   wobSp (ctrl_step DEFAULT_CONTROLLER 100 120 7 0.55
      \<lparr>ctl_state = MITIGATING, detectionStartIdx = 2, recoveryStartIdx = 0,
       wobSp = 100, rpmSp = 120\<rparr>) = 91"
proof -
  have s: "state (runController [scored 0.3, scored 0.3, scored 0.55]
      (DEFAULT_CONTROLLER\<lparr>holdoffSamples := 1\<rparr>) 100 120 ! 1) = MITIGATING"
    by (simp add: runController_def ctrl_step_def DEFAULT_CONTROLLER_def Let_def)
  from s mitigating_setpoints [of 1 "[scored 0.3, scored 0.3, scored 0.55]"
      "DEFAULT_CONTROLLER\<lparr>holdoffSamples := 1\<rparr>" 100 120
      "\<lparr>ctl_state = MITIGATING, detectionStartIdx = 2, recoveryStartIdx = 0,
       wobSp = 100, rpmSp = 120\<rparr>" DEFAULT_CONTROLLER 120 7]
  show ?thesis
    by (simp add: DEFAULT_CONTROLLER_def)
qed

text \<open>
  Claim C7. In the outputs of \<open>runController\<close>, a sample in MITIGATING is followed by a
  sample in MITIGATING or in RECOVERING, never by one in DETECTING or NORMAL.
\<close>

theorem mitigating_never_steps_to_detecting:
  assumes "Suc i < length rows"
    and "state (runController rows p nW nR ! i) = MITIGATING"
  shows "state (runController rows p nW nR ! Suc i) = MITIGATING \<or>
         state (runController rows p nW nR ! Suc i) = RECOVERING"
proof -
  let ?v0 = "\<lparr>ctl_state = NORMAL, detectionStartIdx = 0, recoveryStartIdx = 0,
      wobSp = nW, rpmSp = nR\<rparr>"
  let ?v = "vars_after p nW nR 0 ?v0 (take (Suc i) rows)"
  from assms have "i < length rows" by simp
  with assms(2) have m: "ctl_state ?v = MITIGATING"
    by (simp add: runController_nth)
  have "runController rows p nW nR ! Suc i =
        output_of (ctrl_step p nW nR (Suc i) (computed_css (rows ! Suc i)) ?v)"
    using assms(1) by (simp only: runController_nth vars_after_take_Suc [OF assms(1)]) simp
  with step_from_MITIGATING [OF m] show ?thesis by simp
qed

theorem mitigating_never_steps_to_detecting_witness:
  "Suc 2 < length [scored 0.3, scored 0.3, scored 0.55, scored 0.1] \<and>
   state (runController [scored 0.3, scored 0.3, scored 0.55, scored 0.1]
      (DEFAULT_CONTROLLER\<lparr>holdoffSamples := 1\<rparr>) 100 120 ! 2) = MITIGATING \<and>
   (state (runController [scored 0.3, scored 0.3, scored 0.55, scored 0.1]
      (DEFAULT_CONTROLLER\<lparr>holdoffSamples := 1\<rparr>) 100 120 ! Suc 2) = MITIGATING \<or>
    state (runController [scored 0.3, scored 0.3, scored 0.55, scored 0.1]
      (DEFAULT_CONTROLLER\<lparr>holdoffSamples := 1\<rparr>) 100 120 ! Suc 2) = RECOVERING)"
proof -
  have l: "Suc 2 < length [scored 0.3, scored 0.3, scored 0.55, scored 0.1]"
    by simp
  have s: "state (runController [scored 0.3, scored 0.3, scored 0.55, scored 0.1]
      (DEFAULT_CONTROLLER\<lparr>holdoffSamples := 1\<rparr>) 100 120 ! 2) = MITIGATING"
    by (simp add: runController_def ctrl_step_def DEFAULT_CONTROLLER_def Let_def
        eval_nat_numeral)
  from l s mitigating_never_steps_to_detecting [OF l s] show ?thesis
    by blast
qed

lemma ctrl_step_limits:
  assumes p: "0 \<le> kpWob p" "wobMinFraction p \<le> 1" "0 \<le> kpRpm p" "0 \<le> rpmMaxIncrease p"
    and n: "0 \<le> nW"
    and v: "nW * wobMinFraction p \<le> wobSp v" "wobSp v \<le> nW"
      "nR \<le> rpmSp v" "rpmSp v \<le> nR + rpmMaxIncrease p"
  shows "nW * wobMinFraction p \<le> wobSp (ctrl_step p nW nR i c v) \<and>
         wobSp (ctrl_step p nW nR i c v) \<le> nW \<and>
         nR \<le> rpmSp (ctrl_step p nW nR i c v) \<and>
         rpmSp (ctrl_step p nW nR i c v) \<le> nR + rpmMaxIncrease p"
proof -
  have f: "nW * wobMinFraction p \<le> nW"
    using p(2) n by (simp add: mult_left_le)
  have a: "0 \<le> kpWob p * max 0 (c - ssiEngage p) * nW"
    using p(1) n by simp
  have b: "0 \<le> kpRpm p * max 0 (c - ssiEngage p) * 10"
    using p(3) by simp
  show ?thesis
  proof (cases "ctl_state v")
    case NORMAL
    then show ?thesis using f p(4) by (simp add: ctrl_step_def Let_def)
  next
    case DETECTING
    then show ?thesis using v by (simp add: ctrl_step_def)
  next
    case MITIGATING
    have "wobSp (ctrl_step p nW nR i c v) =
        max (nW * wobMinFraction p) (nW - kpWob p * max 0 (c - ssiEngage p) * nW)"
      and "rpmSp (ctrl_step p nW nR i c v) =
        min (nR + rpmMaxIncrease p) (nR + kpRpm p * max 0 (c - ssiEngage p) * 10)"
      using step_MITIGATING_setpoints [OF MITIGATING] by simp_all
    then show ?thesis using f a b p(4) by (simp add: max_def min_def)
  next
    case RECOVERING
    then show ?thesis using v f p(4) n
      by (simp add: ctrl_step_def Let_def max_def min_def)
  qed
qed

lemma ctrl_loop_limits:
  assumes p: "0 \<le> kpWob p" "wobMinFraction p \<le> 1" "0 \<le> kpRpm p" "0 \<le> rpmMaxIncrease p"
    and n: "0 \<le> nW"
  shows "nW * wobMinFraction p \<le> wobSp v \<Longrightarrow> wobSp v \<le> nW \<Longrightarrow>
      nR \<le> rpmSp v \<Longrightarrow> rpmSp v \<le> nR + rpmMaxIncrease p \<Longrightarrow>
      ou \<in> set (ctrl_loop p nW nR i v rows) \<Longrightarrow>
      nW * wobMinFraction p \<le> wob_setpoint ou \<and> wob_setpoint ou \<le> nW \<and>
      nR \<le> rpm_setpoint ou \<and> rpm_setpoint ou \<le> nR + rpmMaxIncrease p"
proof (induction rows arbitrary: i v)
  case Nil
  then show ?case by simp
next
  case (Cons r rows)
  let ?v' = "ctrl_step p nW nR i (computed_css r) v"
  have s: "nW * wobMinFraction p \<le> wobSp ?v' \<and> wobSp ?v' \<le> nW \<and>
         nR \<le> rpmSp ?v' \<and> rpmSp ?v' \<le> nR + rpmMaxIncrease p"
    using ctrl_step_limits [OF p n Cons.prems(1-4)] .
  from Cons.prems(5) have "ou = output_of ?v' \<or> ou \<in> set (ctrl_loop p nW nR (Suc i) ?v' rows)"
    by (simp add: Let_def)
  then show ?case
  proof
    assume "ou = output_of ?v'"
    with s show ?thesis by simp
  next
    assume "ou \<in> set (ctrl_loop p nW nR (Suc i) ?v' rows)"
    with Cons.IH [of ?v' "Suc i"] s show ?thesis by blast
  qed
qed

text \<open>
  Claim C10. For parameters with \<open>kpWob \<ge> 0\<close>, \<open>0 < wobMinFraction \<le> 1\<close>,
  \<open>kpRpm \<ge> 0\<close>, \<open>rpmMaxIncrease \<ge> 0\<close> and a nominal \<open>nominalWob \<ge> 0\<close>,
  \<open>runController\<close> returns one output per row, and every output, in every state, has
  \<open>nominalWob * wobMinFraction \<le> wob_setpoint \<le> nominalWob\<close> and
  \<open>nominalRpm \<le> rpm_setpoint \<le> nominalRpm + rpmMaxIncrease\<close>.
\<close>

theorem setpoints_within_limits:
  assumes "0 \<le> kpWob p" and "0 < wobMinFraction p" and "wobMinFraction p \<le> 1"
    and "0 \<le> kpRpm p" and "0 \<le> rpmMaxIncrease p" and "0 \<le> nW"
  shows "length (runController rows p nW nR) = length rows \<and>
    (\<forall>ou \<in> set (runController rows p nW nR).
       nW * wobMinFraction p \<le> wob_setpoint ou \<and> wob_setpoint ou \<le> nW \<and>
       nR \<le> rpm_setpoint ou \<and> rpm_setpoint ou \<le> nR + rpmMaxIncrease p)"
proof (intro conjI ballI)
  show "length (runController rows p nW nR) = length rows"
    by (simp add: runController_def length_ctrl_loop)
next
  fix ou assume "ou \<in> set (runController rows p nW nR)"
  then have m: "ou \<in> set (ctrl_loop p nW nR 0
       \<lparr>ctl_state = NORMAL, detectionStartIdx = 0, recoveryStartIdx = 0,
        wobSp = nW, rpmSp = nR\<rparr> rows)"
    by (simp add: runController_def)
  have f: "nW * wobMinFraction p \<le> nW"
    using assms(3,6) by (simp add: mult_left_le)
  have "nW * wobMinFraction p \<le> wob_setpoint ou \<and> wob_setpoint ou \<le> nW \<and>
       nR \<le> rpm_setpoint ou \<and> rpm_setpoint ou \<le> nR + rpmMaxIncrease p"
    by (rule ctrl_loop_limits [OF assms(1,3,4,5,6) _ _ _ _ m]) (use f assms(5) in simp_all)
  then show "nW * wobMinFraction p \<le> wob_setpoint ou" "wob_setpoint ou \<le> nW"
       "nR \<le> rpm_setpoint ou" "rpm_setpoint ou \<le> nR + rpmMaxIncrease p"
    by simp_all
qed

theorem setpoints_within_limits_witness:
  "0 \<le> kpWob DEFAULT_CONTROLLER \<and> 0 < wobMinFraction DEFAULT_CONTROLLER \<and>
   wobMinFraction DEFAULT_CONTROLLER \<le> 1 \<and> 0 \<le> kpRpm DEFAULT_CONTROLLER \<and>
   0 \<le> rpmMaxIncrease DEFAULT_CONTROLLER \<and> (0::real) \<le> 100 \<and>
   length (runController [scored 0.3, scored 0.9, scored 0.1] DEFAULT_CONTROLLER 100 120) = 3 \<and>
   35 \<le> wob_setpoint
     (runController [scored 0.3, scored 0.9, scored 0.1] DEFAULT_CONTROLLER 100 120 ! 1) \<and>
   wob_setpoint
     (runController [scored 0.3, scored 0.9, scored 0.1] DEFAULT_CONTROLLER 100 120 ! 1) \<le> 100 \<and>
   120 \<le> rpm_setpoint
     (runController [scored 0.3, scored 0.9, scored 0.1] DEFAULT_CONTROLLER 100 120 ! 1) \<and>
   rpm_setpoint
     (runController [scored 0.3, scored 0.9, scored 0.1] DEFAULT_CONTROLLER 100 120 ! 1) \<le> 145"
proof -
  let ?run = "runController [scored 0.3, scored 0.9, scored 0.1] DEFAULT_CONTROLLER 100 120"
  have h: "0 \<le> kpWob DEFAULT_CONTROLLER" "0 < wobMinFraction DEFAULT_CONTROLLER"
    "wobMinFraction DEFAULT_CONTROLLER \<le> 1" "0 \<le> kpRpm DEFAULT_CONTROLLER"
    "0 \<le> rpmMaxIncrease DEFAULT_CONTROLLER" "(0::real) \<le> 100"
    by (simp_all add: DEFAULT_CONTROLLER_def)
  have e: "100 * wobMinFraction DEFAULT_CONTROLLER = 35"
    "120 + rpmMaxIncrease DEFAULT_CONTROLLER = 145"
    by (simp_all add: DEFAULT_CONTROLLER_def)
  note t = setpoints_within_limits [OF h, of "[scored 0.3, scored 0.9, scored 0.1]" 120]
  from t have l: "length ?run = 3"
    by simp
  then have "?run ! 1 \<in> set ?run"
    by (simp del: One_nat_def)
  with t have "100 * wobMinFraction DEFAULT_CONTROLLER \<le> wob_setpoint (?run ! 1) \<and>
      wob_setpoint (?run ! 1) \<le> 100 \<and> 120 \<le> rpm_setpoint (?run ! 1) \<and>
      rpm_setpoint (?run ! 1) \<le> 120 + rpmMaxIncrease DEFAULT_CONTROLLER"
    by blast
  with l h show ?thesis
    unfolding e by blast
qed

section \<open>Playback: the gauge filter and seeking\<close>

lemma display_update_smoothed:
  "smoothedCssRef (display_update processed newIdx ts s) =
     (if css_at processed newIdx > smoothedCssRef s then 0.4 else 0.08) * css_at processed newIdx +
     (1 - (if css_at processed newIdx > smoothedCssRef s then 0.4 else 0.08)) * smoothedCssRef s"
  by (simp add: display_update_def Let_def)

lemma display_update_displayCss:
  "displayCss (display_update processed newIdx ts s) =
   smoothedCssRef (display_update processed newIdx ts s)"
  by (simp add: display_update_def Let_def)

lemma tick_throttled:
  assumes "lastFrameRef s \<noteq> 0" "ts - lastFrameRef s \<ge> 16" "ts - lastDisplayRef s \<ge> 66"
    and "js_index SPEEDS (int speedIdx) = Some samples"
  shows "tick speedIdx processed ts s =
    Inr (display_update processed (min (cursorIdxRef s + samples) (int (length processed) - 1)) ts
      (s\<lparr>lastFrameRef := ts,
         cursorIdxRef := min (cursorIdxRef s + samples) (int (length processed) - 1),
         scrubFillWidth := cursor_fraction processed
            (min (cursorIdxRef s + samples) (int (length processed) - 1)) * 100,
         chartCursorFraction := cursor_fraction processed
            (min (cursorIdxRef s + samples) (int (length processed) - 1))\<rparr>))"
  using assms by (simp add: tick_def Let_def)

lemma css_at_samples:
  "css_at [scored 0.8, scored 0.2] 0 = 0.8" "css_at [scored 0.8, scored 0.2] 1 = 0.2"
  by (simp_all add: css_at_def js_index_def nullish_def)

text \<open>
  Claim C8. The throttled update of the animation loop replaces the filter memory \<open>y\<close>
  (\<open>smoothedCssRef\<close>) by \<open>alpha * raw + (1 - alpha) * y\<close>, where \<open>raw\<close> is the score at
  the new cursor index and \<open>alpha\<close> is 0.4 when \<open>raw > y\<close> and 0.08 otherwise; a frame
  that is at least 16 after the last frame and at least 66 after the last throttled
  update performs exactly this update. From \<open>y = 0\<close>, an update with 0.8 gives 0.32 and
  a following update with 0.2 gives 0.3104.
\<close>

theorem attack_release_update:
  "smoothedCssRef (display_update processed newIdx ts s) =
     (if css_at processed newIdx > smoothedCssRef s then 0.4 else 0.08) * css_at processed newIdx +
     (1 - (if css_at processed newIdx > smoothedCssRef s then 0.4 else 0.08)) * smoothedCssRef s \<and>
   (lastFrameRef s \<noteq> 0 \<and> ts - lastFrameRef s \<ge> 16 \<and> ts - lastDisplayRef s \<ge> 66 \<and>
    js_index SPEEDS (int speedIdx) = Some samples \<longrightarrow>
      (\<exists>s'. tick speedIdx processed ts s = Inr s' \<and>
         smoothedCssRef s' = smoothedCssRef (display_update processed
           (min (cursorIdxRef s + samples) (int (length processed) - 1)) ts s))) \<and>
   (smoothedCssRef s0 = 0 \<and> css_at processed k = 0.8 \<and> css_at processed k' = 0.2 \<longrightarrow>
      smoothedCssRef (display_update processed k t s0) = 0.32 \<and>
      smoothedCssRef (display_update processed k' t' (display_update processed k t s0)) = 0.3104)"
proof (intro conjI impI)
  show "smoothedCssRef (display_update processed newIdx ts s) =
     (if css_at processed newIdx > smoothedCssRef s then 0.4 else 0.08) * css_at processed newIdx +
     (1 - (if css_at processed newIdx > smoothedCssRef s then 0.4 else 0.08)) * smoothedCssRef s"
    by (rule display_update_smoothed)
next
  assume h: "lastFrameRef s \<noteq> 0 \<and> ts - lastFrameRef s \<ge> 16 \<and> ts - lastDisplayRef s \<ge> 66 \<and>
    js_index SPEEDS (int speedIdx) = Some samples"
  then have "lastFrameRef s \<noteq> 0" "ts - lastFrameRef s \<ge> 16" "ts - lastDisplayRef s \<ge> 66"
    "js_index SPEEDS (int speedIdx) = Some samples"
    by blast+
  from tick_throttled [OF this]
  show "\<exists>s'. tick speedIdx processed ts s = Inr s' \<and>
         smoothedCssRef s' = smoothedCssRef (display_update processed
           (min (cursorIdxRef s + samples) (int (length processed) - 1)) ts s)"
    by (simp add: display_update_smoothed)
next
  assume h: "smoothedCssRef s0 = 0 \<and> css_at processed k = 0.8 \<and> css_at processed k' = 0.2"
  then have e: "smoothedCssRef s0 = 0" "css_at processed k = 0.8" "css_at processed k' = 0.2"
    by blast+
  show a: "smoothedCssRef (display_update processed k t s0) = 0.32"
    unfolding display_update_smoothed e by simp
  show "smoothedCssRef (display_update processed k' t' (display_update processed k t s0)) = 0.3104"
    unfolding display_update_smoothed [of processed k' t'] a e by simp
qed

theorem attack_release_update_witness:
  "smoothedCssRef (stopped\<lparr>lastFrameRef := 10, cursorIdxRef := -1\<rparr>) = 0 \<and>
   css_at [scored 0.8, scored 0.2] 0 = 0.8 \<and>
   css_at [scored 0.8, scored 0.2] 1 = 0.2 \<and>
   smoothedCssRef (display_update [scored 0.8, scored 0.2] 0 100
      (stopped\<lparr>lastFrameRef := 10, cursorIdxRef := -1\<rparr>)) = 0.32 \<and>
   smoothedCssRef (display_update [scored 0.8, scored 0.2] 1 200
      (display_update [scored 0.8, scored 0.2] 0 100
         (stopped\<lparr>lastFrameRef := 10, cursorIdxRef := -1\<rparr>))) = 0.3104 \<and>
   (\<exists>s'. tick 0 [scored 0.8, scored 0.2] 100
            (stopped\<lparr>lastFrameRef := 10, cursorIdxRef := -1\<rparr>) = Inr s' \<and>
      smoothedCssRef s' = 0.32)"
proof -
  let ?P = "[scored 0.8, scored 0.2]"
  let ?s = "stopped\<lparr>lastFrameRef := 10, cursorIdxRef := -1\<rparr>"
  have sp: "js_index SPEEDS (int 0) = Some 1"
    by (simp add: js_index_def SPEEDS_def)
  have c: "lastFrameRef ?s \<noteq> 0" "100 - lastFrameRef ?s \<ge> 16" "100 - lastDisplayRef ?s \<ge> 66"
    by (simp_all add: stopped_def)
  have z: "smoothedCssRef ?s = 0"
    by (simp add: stopped_def)
  have m: "min (cursorIdxRef ?s + 1) (int (length ?P) - 1) = 0"
    by simp
  note t = attack_release_update [of ?P 0 100 ?s 0 1 ?s 0 1 100 200]
  from t z css_at_samples
  have a: "smoothedCssRef (display_update ?P 0 100 ?s) = 0.32"
    and b: "smoothedCssRef (display_update ?P 1 200 (display_update ?P 0 100 ?s)) = 0.3104"
    by blast+
  from t c sp
  have "\<exists>s'. tick 0 ?P 100 ?s = Inr s' \<and>
      smoothedCssRef s' = smoothedCssRef (display_update ?P
         (min (cursorIdxRef ?s + 1) (int (length ?P) - 1)) 100 ?s)"
    by blast
  then have "\<exists>s'. tick 0 ?P 100 ?s = Inr s' \<and> smoothedCssRef s' = 0.32"
    unfolding m a .
  with z css_at_samples a b show ?thesis
    by blast
qed

text \<open>
  Claim C9. After \<open>moveCursor\<close> to index \<open>k\<close> the cursor (ref and state) is \<open>k\<close>, the
  filter memory is the score at \<open>k\<close>, and the values derived for the readouts (the row
  and the controller output at \<open>k\<close>, the displayed score) are functions of \<open>k\<close> and the
  two arrays alone: they are the same from every earlier playback state, in particular
  after a first seek to \<open>k\<close> followed by a filter update, and seeking twice is the same
  as seeking once.
\<close>

theorem seek_idempotent:
  "cursorIdx (moveCursor P k s) = k \<and> cursorIdxRef (moveCursor P k s) = k \<and>
   smoothedCssRef (moveCursor P k s) = css_at P k \<and>
   derived_values P C (moveCursor P k s) = (or_first P k, or_first C k, css_at P k) \<and>
   derived_values P C (moveCursor P k s') = derived_values P C (moveCursor P k s) \<and>
   derived_values P C (moveCursor P k (display_update P j ts (moveCursor P k s))) =
     derived_values P C (moveCursor P k s) \<and>
   moveCursor P k (moveCursor P k s) = moveCursor P k s"
  by (simp add: moveCursor_def derived_values_def Let_def)

section \<open>Detection: scores, sustained flags and event ids\<close>

lemma rawFlag_at_nth:
  "0 \<le> j \<Longrightarrow> j < int (length rawFlag) \<Longrightarrow> rawFlag_at rawFlag j = rawFlag ! nat j"
  by (simp add: rawFlag_at_def js_index_def)

lemma allTrue_loop_iff:
  "allTrue_loop rawFlag j i \<longleftrightarrow> (\<forall>k. j \<le> k \<and> k \<le> i \<longrightarrow> rawFlag_at rawFlag k)"
proof (induction rawFlag j i rule: allTrue_loop.induct)
  case (1 rawFlag j i)
  show ?case
  proof (cases "j \<le> i")
    case False
    then show ?thesis
      by (auto simp: allTrue_loop.simps [of rawFlag j i])
  next
    case True
    show ?thesis
    proof (cases "rawFlag_at rawFlag j")
      case False
      with True show ?thesis
        by (auto simp: allTrue_loop.simps [of rawFlag j i])
    next
      case flag: True
      have "allTrue_loop rawFlag j i = allTrue_loop rawFlag (j + 1) i"
        using True flag by (simp add: allTrue_loop.simps [of rawFlag j i])
      also have "\<dots> \<longleftrightarrow> (\<forall>k. j + 1 \<le> k \<and> k \<le> i \<longrightarrow> rawFlag_at rawFlag k)"
        using "1.IH" True flag by simp
      also have "\<dots> \<longleftrightarrow> (\<forall>k. j \<le> k \<and> k \<le> i \<longrightarrow> rawFlag_at rawFlag k)"
      proof
        assume a: "\<forall>k. j + 1 \<le> k \<and> k \<le> i \<longrightarrow> rawFlag_at rawFlag k"
        show "\<forall>k. j \<le> k \<and> k \<le> i \<longrightarrow> rawFlag_at rawFlag k"
        proof (intro allI impI)
          fix k assume "j \<le> k \<and> k \<le> i"
          then have "k = j \<or> (j + 1 \<le> k \<and> k \<le> i)" by arith
          with a flag show "rawFlag_at rawFlag k" by blast
        qed
      next
        assume "\<forall>k. j \<le> k \<and> k \<le> i \<longrightarrow> rawFlag_at rawFlag k"
        then show "\<forall>k. j + 1 \<le> k \<and> k \<le> i \<longrightarrow> rawFlag_at rawFlag k" by simp
      qed
      finally show ?thesis .
    qed
  qed
qed

lemma length_js_store [simp]: "length (js_store xs i v) = length xs"
  by (simp add: js_store_def)

lemma js_store_nth:
  "k < length xs \<Longrightarrow> js_store xs i v ! k = (if int k = i then v else xs ! k)"
  by (auto simp: js_store_def nth_list_update)

lemma length_sustained_loop [simp]:
  "length (sustained_loop rawFlag w n i sustained) = length sustained"
proof (induction rawFlag w n i sustained rule: sustained_loop.induct)
  case (1 rawFlag w n i sustained)
  then show ?case
    by (simp add: sustained_loop.simps [of rawFlag w n i sustained])
qed

lemma sustained_loop_nth:
  "k < length sustained \<Longrightarrow>
   sustained_loop rawFlag w n i sustained ! k =
     ((i \<le> int k \<and> int k < n \<and> allTrue_loop rawFlag (int k - w + 1) (int k)) \<or> sustained ! k)"
proof (induction rawFlag w n i sustained rule: sustained_loop.induct)
  case (1 rawFlag w n i sustained)
  show ?case
  proof (cases "i < n")
    case False
    then show ?thesis
      by (auto simp: sustained_loop.simps [of rawFlag w n i sustained])
  next
    case True
    let ?s' = "if allTrue_loop rawFlag (i - w + 1) i then js_store sustained i True else sustained"
    have k: "k < length ?s'" using "1.prems" by simp
    have "sustained_loop rawFlag w n i sustained ! k = sustained_loop rawFlag w n (i + 1) ?s' ! k"
      using True by (simp add: sustained_loop.simps [of rawFlag w n i sustained])
    also have "\<dots> = ((i + 1 \<le> int k \<and> int k < n \<and>
        allTrue_loop rawFlag (int k - w + 1) (int k)) \<or> ?s' ! k)"
      using "1.IH" [OF True k] .
    also have "?s' ! k = ((int k = i \<and> allTrue_loop rawFlag (i - w + 1) i) \<or> sustained ! k)"
      using "1.prems" by (auto simp: js_store_nth)
    finally have eq: "sustained_loop rawFlag w n i sustained ! k =
        ((i + 1 \<le> int k \<and> int k < n \<and> allTrue_loop rawFlag (int k - w + 1) (int k)) \<or>
         ((int k = i \<and> allTrue_loop rawFlag (i - w + 1) i) \<or> sustained ! k))" .
    show ?thesis
    proof (cases "int k = i")
      case here: True
      then have i: "i = int k" by simp
      show ?thesis
        using eq True unfolding i by simp
    next
      case False
      then have "(i \<le> int k) = (i + 1 \<le> int k)" by arith
      with eq False show ?thesis by simp
    qed
  qed
qed

lemma length_sustained_of [simp]: "length (sustained_of rawFlag w) = length rawFlag"
  by (simp add: sustained_of_def Let_def)

lemma sustained_of_nth:
  "k < length rawFlag \<Longrightarrow>
   sustained_of rawFlag w ! k =
     (w - 1 \<le> int k \<and> allTrue_loop rawFlag (int k - w + 1) (int k))"
  by (simp add: sustained_of_def Let_def sustained_loop_nth)

lemma length_assignEventIds [simp]:
  "length (assignEventIds eventId inEvent sustained) = length sustained"
  by (induction sustained arbitrary: eventId inEvent) (simp_all add: Let_def)

lemma recompute_length: "length (recompute rows params) = length rows"
  by (simp add: recompute_def Let_def)

lemma recompute_nth:
  assumes "i < length rows"
  shows "recompute rows params ! i =
    (score_row params (rows ! i))
      \<lparr>computed_flag := sustained_of (map (\<lambda>r. computed_css r \<ge> cssThreshold params)
            (map (score_row params) rows)) (minDurationSamples params) ! i,
       computed_event_id := assignEventIds 0 False
          (sustained_of (map (\<lambda>r. computed_css r \<ge> cssThreshold params)
            (map (score_row params) rows)) (minDurationSamples params)) ! i\<rparr>"
  using assms by (simp add: recompute_def Let_def)

lemma recompute_css:
  "map computed_css (recompute rows params) = map (\<lambda>r. computed_css (score_row params r)) rows"
  by (rule nth_equalityI) (simp_all add: recompute_length recompute_nth)

lemma recompute_flag:
  "map computed_flag (recompute rows params) =
   sustained_of (map (\<lambda>r. computed_css r \<ge> cssThreshold params) (recompute rows params))
     (minDurationSamples params)"
proof -
  have e: "map (\<lambda>r. computed_css r \<ge> cssThreshold params) (recompute rows params) =
      map (\<lambda>r. computed_css r \<ge> cssThreshold params) (map (score_row params) rows)"
    by (rule nth_equalityI) (simp_all add: recompute_length recompute_nth)
  show ?thesis
    unfolding e by (rule nth_equalityI) (simp_all add: recompute_length recompute_nth)
qed

lemma recompute_event_id:
  "map computed_event_id (recompute rows params) =
   assignEventIds 0 False (map computed_flag (recompute rows params))"
proof -
  have e: "map (\<lambda>r. computed_css r \<ge> cssThreshold params) (recompute rows params) =
      map (\<lambda>r. computed_css r \<ge> cssThreshold params) (map (score_row params) rows)"
    by (rule nth_equalityI) (simp_all add: recompute_length recompute_nth)
  show ?thesis
    unfolding recompute_flag e
    by (rule nth_equalityI) (simp_all add: recompute_length recompute_nth)
qed

lemma score_row_css:
  "computed_css (score_row params r) =
     (let total = mwdWeight params + torqueWeight params + rpmWeight params
      in min 1 (nullish (mwd_ssi r) 0 * (mwdWeight params / total) +
           max 0 (min 1 (nullish (torque_deviation r) 0 * 0.5)) * (torqueWeight params / total) +
           max 0 (min 1 (nullish (rpm_ssi r) 0 * 0.5)) * (rpmWeight params / total)))"
  by (simp add: score_row_def Let_def TelemetryRow.defs ProcessedRow.defs)

lemma score_row_le_1: "computed_css (score_row params r) \<le> 1"
  by (simp add: score_row_css Let_def)

lemma score_row_nonneg:
  assumes "0 \<le> mwdWeight params" "0 \<le> torqueWeight params" "0 \<le> rpmWeight params"
    and "0 \<le> nullish (mwd_ssi r) 0"
  shows "0 \<le> computed_css (score_row params r)"
proof -
  let ?total = "mwdWeight params + torqueWeight params + rpmWeight params"
  have t: "0 \<le> ?total" using assms by simp
  have "0 \<le> nullish (mwd_ssi r) 0 * (mwdWeight params / ?total)"
    using assms t by simp
  moreover have "0 \<le> max 0 (min 1 (nullish (torque_deviation r) 0 * 0.5)) * (torqueWeight params / ?total)"
    using assms t by simp
  moreover have "0 \<le> max 0 (min 1 (nullish (rpm_ssi r) 0 * 0.5)) * (rpmWeight params / ?total)"
    using assms t by simp
  ultimately show ?thesis
    by (simp add: score_row_css Let_def)
qed

text \<open>
  Claim C3. For a window \<open>w \<ge> 1\<close> and the raw flags \<open>raw[i] = (severities[i] >= threshold)\<close>,
  \<open>sustained[i]\<close> is true exactly when \<open>i \<ge> w - 1\<close> and every raw flag at the indices
  \<open>i - w + 1 \<dots> i\<close> is true; so it is false for \<open>i < w - 1\<close>, and \<open>w = 1\<close> gives
  \<open>sustained = raw\<close>. The flags have the length of the input, and \<open>computed_flag\<close> in
  the result of \<open>recompute\<close> is this sequence for the scores of the result.
\<close>

theorem sustained_window:
  "length (sustained_of (map (\<lambda>s. s \<ge> threshold) severities) w) = length severities \<and>
   (1 \<le> w \<and> i < length severities \<longrightarrow>
      sustained_of (map (\<lambda>s. s \<ge> threshold) severities) w ! i =
        (w - 1 \<le> int i \<and>
         (\<forall>j. int i - w + 1 \<le> j \<and> j \<le> int i \<longrightarrow>
              map (\<lambda>s. s \<ge> threshold) severities ! nat j))) \<and>
   (1 \<le> w \<and> i < length severities \<and> int i < w - 1 \<longrightarrow>
      \<not> sustained_of (map (\<lambda>s. s \<ge> threshold) severities) w ! i) \<and>
   sustained_of (map (\<lambda>s. s \<ge> threshold) severities) 1 = map (\<lambda>s. s \<ge> threshold) severities \<and>
   map computed_flag (recompute rows params) =
     sustained_of (map (\<lambda>r. computed_css r \<ge> cssThreshold params) (recompute rows params))
       (minDurationSamples params)"
proof -
  let ?raw = "map (\<lambda>s. s \<ge> threshold) severities"
  have win: "sustained_of ?raw v ! k =
      (v - 1 \<le> int k \<and> (\<forall>j. int k - v + 1 \<le> j \<and> j \<le> int k \<longrightarrow> ?raw ! nat j))"
    if "1 \<le> v" "k < length severities" for v k
  proof (cases "v - 1 \<le> int k")
    case False
    with that show ?thesis by (simp add: sustained_of_nth)
  next
    case True
    have "rawFlag_at ?raw j = ?raw ! nat j" if "int k - v + 1 \<le> j \<and> j \<le> int k" for j
      using that True \<open>k < length severities\<close> by (intro rawFlag_at_nth) simp_all
    then show ?thesis
      using that True by (simp add: sustained_of_nth allTrue_loop_iff)
  qed
  have one: "sustained_of ?raw 1 = ?raw"
  proof (rule nth_equalityI)
    show "length (sustained_of ?raw 1) = length ?raw" by simp
  next
    fix k assume "k < length (sustained_of ?raw 1)"
    then have k: "k < length severities" by simp
    have "(\<forall>j. int k \<le> j \<and> j \<le> int k \<longrightarrow> ?raw ! nat j) = ?raw ! k"
    proof
      assume "\<forall>j. int k \<le> j \<and> j \<le> int k \<longrightarrow> ?raw ! nat j"
      then have "?raw ! nat (int k)" by blast
      then show "?raw ! k" by simp
    next
      assume a: "?raw ! k"
      show "\<forall>j. int k \<le> j \<and> j \<le> int k \<longrightarrow> ?raw ! nat j"
      proof (intro allI impI)
        fix j assume "int k \<le> j \<and> j \<le> int k"
        then have "nat j = k" by arith
        with a show "?raw ! nat j" by simp
      qed
    qed
    with win [of 1 k] k show "sustained_of ?raw 1 ! k = ?raw ! k" by simp
  qed
  show ?thesis
    using win [of w i] one recompute_flag [of rows params] by simp
qed

theorem sustained_window_witness:
  "(1::int) \<le> 3 \<and> 3 < length [0.1, 0.3, 0.3, 0.3, 0.1 :: real] \<and>
   1 < length [0.1, 0.3, 0.3, 0.3, 0.1 :: real] \<and> int 1 < 3 - 1 \<and>
   sustained_of (map (\<lambda>s. s \<ge> 0.25) [0.1, 0.3, 0.3, 0.3, 0.1 :: real]) 3 ! 3 \<and>
   \<not> sustained_of (map (\<lambda>s. s \<ge> 0.25) [0.1, 0.3, 0.3, 0.3, 0.1 :: real]) 3 ! 1 \<and>
   \<not> sustained_of (map (\<lambda>s. s \<ge> 0.25) [0.1, 0.3, 0.3, 0.3, 0.1 :: real]) 3 ! 4"
proof -
  let ?sev = "[0.1, 0.3, 0.3, 0.3, 0.1 :: real]"
  let ?raw = "map (\<lambda>s. s \<ge> 0.25) ?sev"
  have raw: "?raw = [False, True, True, True, False]"
    by simp
  have w3: "\<forall>j. int 3 - 3 + 1 \<le> j \<and> j \<le> int 3 \<longrightarrow> ?raw ! nat j"
  proof (intro allI impI)
    fix j :: int assume "int 3 - 3 + 1 \<le> j \<and> j \<le> int 3"
    then have "j = 1 \<or> j = 2 \<or> j = 3" by arith
    then show "?raw ! nat j"
      unfolding raw by (auto simp: eval_nat_numeral)
  qed
  have w4: "\<not> (\<forall>j. int 4 - 3 + 1 \<le> j \<and> j \<le> int 4 \<longrightarrow> ?raw ! nat j)"
  proof
    assume "\<forall>j. int 4 - 3 + 1 \<le> j \<and> j \<le> int 4 \<longrightarrow> ?raw ! nat j"
    then have "int 4 - 3 + 1 \<le> (4::int) \<and> (4::int) \<le> int 4 \<longrightarrow> ?raw ! nat 4"
      by (rule spec)
    then show False
      by (simp add: eval_nat_numeral)
  qed
  have l: "(1::int) \<le> 3" "3 < length ?sev" "1 < length ?sev" "4 < length ?sev" "int 1 < 3 - 1"
    "(3::int) - 1 \<le> int 3" "(3::int) - 1 \<le> int 4"
    by simp_all
  from sustained_window [of "0.25" ?sev 3 3 "[]" DEFAULT_PARAMS] l w3
  have a: "sustained_of ?raw 3 ! 3" by blast
  from sustained_window [of "0.25" ?sev 3 1 "[]" DEFAULT_PARAMS] l
  have b: "\<not> sustained_of ?raw 3 ! 1" by blast
  from sustained_window [of "0.25" ?sev 3 4 "[]" DEFAULT_PARAMS] l w4
  have c: "\<not> sustained_of ?raw 3 ! 4" by blast
  from l a b c show ?thesis by blast
qed

lemma assign_zero_iff:
  "(inEvent \<longrightarrow> 0 < eventId) \<Longrightarrow> i < length sustained \<Longrightarrow>
   (assignEventIds eventId inEvent sustained ! i = 0) = (\<not> sustained ! i)"
proof (induction sustained arbitrary: eventId inEvent i)
  case Nil
  then show ?case by simp
next
  case (Cons s rest)
  show ?case
  proof (cases i)
    case 0
    with Cons.prems show ?thesis by (auto simp: Let_def)
  next
    case (Suc k)
    let ?e = "if s \<and> \<not> inEvent then eventId + 1 else eventId"
    let ?b = "if s \<and> \<not> inEvent then True else if \<not> s then False else inEvent"
    have inv: "?b \<longrightarrow> 0 < ?e" using Cons.prems(1) by auto
    have k: "k < length rest" using Cons.prems(2) Suc by simp
    from Cons.IH [OF inv k] Suc show ?thesis by (simp add: Let_def)
  qed
qed

lemma assign_run_constant:
  "Suc i < length sustained \<Longrightarrow> sustained ! i \<Longrightarrow> sustained ! Suc i \<Longrightarrow>
   assignEventIds eventId inEvent sustained ! Suc i =
   assignEventIds eventId inEvent sustained ! i"
proof (induction sustained arbitrary: eventId inEvent i)
  case Nil
  then show ?case by simp
next
  case (Cons s rest)
  show ?case
  proof (cases i)
    case 0
    with Cons.prems obtain s2 rest2 where r: "rest = s2 # rest2"
      by (cases rest) auto
    with Cons.prems 0 show ?thesis by (auto simp: Let_def)
  next
    case (Suc k)
    with Cons.prems have "Suc k < length rest" "rest ! k" "rest ! Suc k" by simp_all
    from Cons.IH [OF this] Suc show ?thesis by (simp add: Let_def)
  qed
qed

lemma Max_insert_below:
  fixes e e' :: nat
  assumes "finite S" "e \<le> e'"
  shows "Max (insert e (insert e' S)) = Max (insert e' S)"
proof -
  have "Max (insert e (insert e' S)) = max e (Max (insert e' S))"
    using assms(1) by (intro Max_insert) simp_all
  moreover have "e' \<le> Max (insert e' S)"
    using assms(1) by (intro Max_ge) simp_all
  ultimately show ?thesis using assms(2) by simp
qed

lemma Max_insert_zero:
  fixes e :: nat
  assumes "finite S"
  shows "Max (insert e (insert 0 S)) = Max (insert e S)"
proof -
  have "insert e (insert 0 S) = insert 0 (insert e S)" by blast
  moreover have "Max (insert 0 (insert e S)) = max 0 (Max (insert e S))"
    using assms by (intro Max_insert) simp_all
  ultimately show ?thesis by simp
qed

lemma assign_rising_edge:
  "i < length sustained \<Longrightarrow> sustained ! i \<Longrightarrow>
   (if i = 0 then \<not> inEvent else \<not> sustained ! (i - 1)) \<Longrightarrow>
   assignEventIds eventId inEvent sustained ! i =
   Suc (Max (insert eventId (set (take i (assignEventIds eventId inEvent sustained)))))"
proof (induction sustained arbitrary: eventId inEvent i)
  case Nil
  then show ?case by simp
next
  case (Cons s rest)
  show ?case
  proof (cases i)
    case 0
    with Cons.prems show ?thesis by (simp add: Let_def)
  next
    case (Suc k)
    let ?e = "if s \<and> \<not> inEvent then eventId + 1 else eventId"
    let ?b = "if s \<and> \<not> inEvent then True else if \<not> s then False else inEvent"
    let ?ids = "assignEventIds ?e ?b rest"
    have k: "k < length rest" "rest ! k" using Cons.prems Suc by simp_all
    have edge: "if k = 0 then \<not> ?b else \<not> rest ! (k - 1)"
    proof (cases k)
      case 0
      with Cons.prems(3) Suc show ?thesis by simp
    next
      case (Suc k')
      with Cons.prems(3) \<open>i = Suc k\<close> show ?thesis by simp
    qed
    have ih: "?ids ! k = Suc (Max (insert ?e (set (take k ?ids))))"
      using Cons.IH [OF k edge] .
    have "Max (insert eventId (insert (if s then ?e else 0) (set (take k ?ids)))) =
          Max (insert ?e (set (take k ?ids)))"
    proof (cases s)
      case True
      have "eventId \<le> ?e" by simp
      from Max_insert_below [OF _ this, of "set (take k ?ids)"] True show ?thesis by simp
    next
      case False
      from Max_insert_zero [of "set (take k ?ids)" eventId] False show ?thesis by simp
    qed
    with ih Suc show ?thesis by (simp add: Let_def)
  qed
qed

text \<open>
  Claim C4. For every sequence \<open>sustained\<close>, the event ids of the scan from
  \<open>eventId = 0\<close>, \<open>inEvent = false\<close> are 0 exactly where \<open>sustained\<close> is false; where
  \<open>sustained\<close> turns from false to true (or is true at index 0) the id is one more than
  the largest id given before, which is 1 at the first event; and the id stays the same
  from one sustained sample to the next. \<open>computed_event_id\<close> in the result of
  \<open>recompute\<close> is this scan of its \<open>computed_flag\<close>.
\<close>

theorem event_ids_follow_runs:
  "length (assignEventIds 0 False sustained) = length sustained \<and>
   (i < length sustained \<longrightarrow>
      (assignEventIds 0 False sustained ! i = 0) = (\<not> sustained ! i)) \<and>
   (i < length sustained \<and> sustained ! i \<and> (i = 0 \<or> \<not> sustained ! (i - 1)) \<longrightarrow>
      assignEventIds 0 False sustained ! i =
        Suc (Max (insert 0 (set (take i (assignEventIds 0 False sustained)))))) \<and>
   (i < length sustained \<and> sustained ! i \<and> (\<forall>j < i. \<not> sustained ! j) \<longrightarrow>
      assignEventIds 0 False sustained ! i = 1) \<and>
   (Suc i < length sustained \<and> sustained ! i \<and> sustained ! Suc i \<longrightarrow>
      assignEventIds 0 False sustained ! Suc i = assignEventIds 0 False sustained ! i) \<and>
   map computed_event_id (recompute rows params) =
     assignEventIds 0 False (map computed_flag (recompute rows params))"
proof -
  let ?ids = "assignEventIds 0 False sustained"
  have edge: "?ids ! i = Suc (Max (insert 0 (set (take i ?ids))))"
    if "i < length sustained" "sustained ! i" "i = 0 \<or> \<not> sustained ! (i - 1)"
    using that by (intro assign_rising_edge) auto
  have first: "?ids ! i = 1"
    if h: "i < length sustained" "sustained ! i" "\<forall>j < i. \<not> sustained ! j"
  proof -
    have e: "i = 0 \<or> \<not> sustained ! (i - 1)" using h(3) by (cases i) auto
    have "x = 0" if "x \<in> set (take i ?ids)" for x
    proof -
      from that obtain j where j: "j < i" "j < length ?ids" "x = ?ids ! j"
        by (auto simp: in_set_conv_nth)
      with h(1) have "(?ids ! j = 0) = (\<not> sustained ! j)"
        by (intro assign_zero_iff) simp_all
      with j h(3) show ?thesis by simp
    qed
    then have "insert 0 (set (take i ?ids)) = {0}" by auto
    with edge [OF h(1,2) e] show ?thesis by simp
  qed
  show ?thesis
    using edge first assign_zero_iff [of False 0 i sustained]
      assign_run_constant [of i sustained 0 False] recompute_event_id [of rows params]
    by simp
qed

theorem event_ids_follow_runs_witness:
  "assignEventIds 0 False [True, True, False, True] ! 2 = 0 \<and>
   assignEventIds 0 False [True, True, False, True] ! 0 = 1 \<and>
   assignEventIds 0 False [True, True, False, True] ! Suc 0 =
     assignEventIds 0 False [True, True, False, True] ! 0 \<and>
   assignEventIds 0 False [True, True, False, True] ! 3 =
     Suc (Max (insert 0 (set (take 3 (assignEventIds 0 False [True, True, False, True]))))) \<and>
   Suc (Max (insert 0 (set (take 3 (assignEventIds 0 False [True, True, False, True]))))) = 2"
  using event_ids_follow_runs [of "[True, True, False, True]" 2 "[]" DEFAULT_PARAMS]
    event_ids_follow_runs [of "[True, True, False, True]" 0 "[]" DEFAULT_PARAMS]
    event_ids_follow_runs [of "[True, True, False, True]" 3 "[]" DEFAULT_PARAMS]
  by (simp add: eval_nat_numeral)

text \<open>
  Claim C2, at an input where it fails. \<open>recompute\<close> bounds the score from above only
  (\<open>Math.min(1, mwd + torque + rpm)\<close>), and the \<open>mwd_ssi\<close> term is not clamped as the
  other two are. With the default weights, which are valid, a row whose \<open>mwd_ssi\<close> is
  \<open>-1\<close> and whose other channels are absent gets the score \<open>-0.6\<close>. (By
  \<open>score_row_le_1\<close> and \<open>score_row_nonneg\<close> the score is in \<open>[0, 1]\<close> whenever
  the weights are not negative and \<open>mwd_ssi\<close> is absent or not negative.)
\<close>

theorem negative_mwd_scores_below_zero:
  "0 \<le> mwdWeight DEFAULT_PARAMS \<and> 0 \<le> torqueWeight DEFAULT_PARAMS \<and>
   0 \<le> rpmWeight DEFAULT_PARAMS \<and>
   0 < mwdWeight DEFAULT_PARAMS + torqueWeight DEFAULT_PARAMS + rpmWeight DEFAULT_PARAMS \<and>
   map computed_css (recompute [blank_row\<lparr>mwd_ssi := Some (- 1)\<rparr>] DEFAULT_PARAMS) = [- 0.6] \<and>
   computed_css (recompute [blank_row\<lparr>mwd_ssi := Some (- 1)\<rparr>] DEFAULT_PARAMS ! 0) < 0"
proof -
  have c: "computed_css (score_row DEFAULT_PARAMS (blank_row\<lparr>mwd_ssi := Some (- 1)\<rparr>)) = - 0.6"
    by (simp add: score_row_css Let_def DEFAULT_PARAMS_def blank_row_def nullish_def)
  have m: "map computed_css (recompute [blank_row\<lparr>mwd_ssi := Some (- 1)\<rparr>] DEFAULT_PARAMS) = [- 0.6]"
    by (simp add: recompute_css c)
  have "computed_css (recompute [blank_row\<lparr>mwd_ssi := Some (- 1)\<rparr>] DEFAULT_PARAMS ! 0) =
      map computed_css (recompute [blank_row\<lparr>mwd_ssi := Some (- 1)\<rparr>] DEFAULT_PARAMS) ! 0"
    by (simp add: recompute_length)
  with m have "computed_css (recompute [blank_row\<lparr>mwd_ssi := Some (- 1)\<rparr>] DEFAULT_PARAMS ! 0) < 0"
    by simp
  with m show ?thesis
    by (simp add: DEFAULT_PARAMS_def)
qed

text \<open>
  Claim C1, as the code has it. Neither batch pass checks its configuration.
  \<open>runController\<close> runs to the end on every parameter record, also with
  \<open>ssiRecovery > ssiEngage\<close>, a negative gain or a floor fraction that is not
  positive, and returns one output for each row. \<open>recompute\<close> runs to the end on
  every weights and threshold, also with weights whose sum is not positive, whenever
  \<open>minDurationSamples \<ge> 1\<close>, and returns one processed row for each input row.
  Nothing is said here for the windows below 1.
\<close>

theorem batch_passes_run_unchecked:
  "length (runController processed cparams nominalWob nominalRpm) = length processed \<and>
   (1 \<le> minDurationSamples params \<longrightarrow> length (recompute rows params) = length rows)"
  by (simp add: recompute_length runController_def length_ctrl_loop)

theorem batch_passes_run_unchecked_witness:
  "mwdWeight (DEFAULT_PARAMS\<lparr>mwdWeight := - 1, torqueWeight := 0, rpmWeight := 0\<rparr>) +
     torqueWeight (DEFAULT_PARAMS\<lparr>mwdWeight := - 1, torqueWeight := 0, rpmWeight := 0\<rparr>) +
     rpmWeight (DEFAULT_PARAMS\<lparr>mwdWeight := - 1, torqueWeight := 0, rpmWeight := 0\<rparr>) \<le> 0 \<and>
   1 \<le> minDurationSamples (DEFAULT_PARAMS\<lparr>mwdWeight := - 1, torqueWeight := 0, rpmWeight := 0\<rparr>) \<and>
   length (recompute [blank_row, blank_row\<lparr>mwd_ssi := Some 1\<rparr>]
      (DEFAULT_PARAMS\<lparr>mwdWeight := - 1, torqueWeight := 0, rpmWeight := 0\<rparr>)) = 2 \<and>
   kpRpm (DEFAULT_CONTROLLER\<lparr>ssiRecovery := 0.9, kpRpm := - 1, wobMinFraction := - 1\<rparr>) < 0 \<and>
   length (runController [scored 0.3, scored 0.9, scored 0.1]
      (DEFAULT_CONTROLLER\<lparr>ssiRecovery := 0.9, kpRpm := - 1, wobMinFraction := - 1\<rparr>) 100 120) = 3"
proof -
  let ?d = "DEFAULT_PARAMS\<lparr>mwdWeight := - 1, torqueWeight := 0, rpmWeight := 0\<rparr>"
  let ?c = "DEFAULT_CONTROLLER\<lparr>ssiRecovery := 0.9, kpRpm := - 1, wobMinFraction := - 1\<rparr>"
  have p: "mwdWeight ?d + torqueWeight ?d + rpmWeight ?d \<le> 0" "1 \<le> minDurationSamples ?d"
    "kpRpm ?c < 0"
    by (simp_all add: DEFAULT_PARAMS_def DEFAULT_CONTROLLER_def)
  note t = batch_passes_run_unchecked
    [of "[scored 0.3, scored 0.9, scored 0.1]" ?c 100 120 ?d
        "[blank_row, blank_row\<lparr>mwd_ssi := Some 1\<rparr>]"]
  from t p(2) have "length (recompute [blank_row, blank_row\<lparr>mwd_ssi := Some 1\<rparr>] ?d) = 2"
    by simp
  moreover from t have "length (runController [scored 0.3, scored 0.9, scored 0.1] ?c 100 120) = 3"
    by simp
  ultimately show ?thesis
    using p by blast
qed

text \<open>
  Claim C1 as stated fails: a controller configuration with \<open>ssiRecovery > ssiEngage\<close>,
  a negative gain and a floor fraction of 0 is run to the end, and so is a detection
  pass with \<open>minDurationSamples = 0\<close> (its counter takes the values \<open>-1\<close> and 0 only),
  which flags a sample whose score 0 is below the threshold.
\<close>

theorem invalid_configuration_counterexample:
  "ssiRecovery (DEFAULT_CONTROLLER\<lparr>ssiRecovery := 0.9, kpWob := - 1, wobMinFraction := 0\<rparr>) >
     ssiEngage (DEFAULT_CONTROLLER\<lparr>ssiRecovery := 0.9, kpWob := - 1, wobMinFraction := 0\<rparr>) \<and>
   kpWob (DEFAULT_CONTROLLER\<lparr>ssiRecovery := 0.9, kpWob := - 1, wobMinFraction := 0\<rparr>) < 0 \<and>
   wobMinFraction (DEFAULT_CONTROLLER\<lparr>ssiRecovery := 0.9, kpWob := - 1, wobMinFraction := 0\<rparr>) \<le> 0 \<and>
   runController [scored 0.3, scored 0.3]
      (DEFAULT_CONTROLLER\<lparr>ssiRecovery := 0.9, kpWob := - 1, wobMinFraction := 0\<rparr>) 100 120 =
     [\<lparr>state = DETECTING, wob_setpoint = 100, rpm_setpoint = 120\<rparr>,
      \<lparr>state = DETECTING, wob_setpoint = 100, rpm_setpoint = 120\<rparr>] \<and>
   minDurationSamples (DEFAULT_PARAMS\<lparr>minDurationSamples := 0\<rparr>) < 1 \<and>
   length (recompute [blank_row] (DEFAULT_PARAMS\<lparr>minDurationSamples := 0\<rparr>)) = 1 \<and>
   map computed_css (recompute [blank_row] (DEFAULT_PARAMS\<lparr>minDurationSamples := 0\<rparr>)) = [0] \<and>
   map computed_flag (recompute [blank_row] (DEFAULT_PARAMS\<lparr>minDurationSamples := 0\<rparr>)) = [True] \<and>
   map computed_event_id (recompute [blank_row] (DEFAULT_PARAMS\<lparr>minDurationSamples := 0\<rparr>)) = [1]"
proof -
  let ?c = "DEFAULT_CONTROLLER\<lparr>ssiRecovery := 0.9, kpWob := - 1, wobMinFraction := 0\<rparr>"
  let ?d = "DEFAULT_PARAMS\<lparr>minDurationSamples := 0\<rparr>"
  have p: "ssiRecovery ?c > ssiEngage ?c" "kpWob ?c < 0" "wobMinFraction ?c \<le> 0"
    "minDurationSamples ?d < 1"
    by (simp_all add: DEFAULT_CONTROLLER_def DEFAULT_PARAMS_def)
  have r: "runController [scored 0.3, scored 0.3] ?c 100 120 =
     [\<lparr>state = DETECTING, wob_setpoint = 100, rpm_setpoint = 120\<rparr>,
      \<lparr>state = DETECTING, wob_setpoint = 100, rpm_setpoint = 120\<rparr>]"
    by (simp add: runController_def ctrl_step_def output_of_def DEFAULT_CONTROLLER_def Let_def)
  have l: "length (recompute [blank_row] ?d) = 1"
    by (simp add: recompute_length)
  have c0: "computed_css (score_row ?d blank_row) = 0"
    by (simp add: score_row_css Let_def DEFAULT_PARAMS_def blank_row_def nullish_def)
  have c: "map computed_css (recompute [blank_row] ?d) = [0]"
    by (simp add: recompute_css c0)
  have s: "sustained_of [False] 0 = [True]"
    by (rule nth_equalityI) (auto simp: sustained_of_nth allTrue_loop_iff)
  have "map (\<lambda>r. computed_css r \<ge> cssThreshold ?d) (recompute [blank_row] ?d) =
      map (\<lambda>x. x \<ge> cssThreshold ?d) (map computed_css (recompute [blank_row] ?d))"
    by (simp add: o_def)
  then have raw: "map (\<lambda>r. computed_css r \<ge> cssThreshold ?d) (recompute [blank_row] ?d) = [False]"
    unfolding c by (simp add: DEFAULT_PARAMS_def)
  have f: "map computed_flag (recompute [blank_row] ?d) = [True]"
    unfolding recompute_flag raw by (simp add: s)
  have e: "map computed_event_id (recompute [blank_row] ?d) = [1]"
    unfolding recompute_event_id f by simp
  from p r l c f e show ?thesis by blast
qed

end
